theory Spec2Isabelle
  imports Complex_Main
begin

section \<open>Configuration (main.py, lines 11-15)\<close>

text \<open>
  Times are \<open>datetime\<close> values: integers counting microseconds. A \<open>timedelta\<close> is a
  difference of two of them, and \<open>timedelta(seconds=n)\<close> is \<open>n * 10^6\<close> microseconds.
  Python's integers are unbounded: \<open>int\<close>.
\<close>

definition UPLOAD_FOLDER :: string where
  "UPLOAD_FOLDER = ''uploads''"

definition COLLAGE_FOLDER :: string where
  "COLLAGE_FOLDER = ''collages''"

definition ALLOWED_EXTENSIONS :: "string set" where
  "ALLOWED_EXTENSIONS = {''png'', ''jpg'', ''jpeg'', ''gif''}"

definition A4_SIZE :: "int \<times> int" where
  "A4_SIZE = (2480, 3508)"

definition COLLAGE_INTERVAL :: int where
  "COLLAGE_INTERVAL = 60"

definition timedelta_seconds :: "int \<Rightarrow> int" where
  "timedelta_seconds n = n * 1000000"

section \<open>Strings and paths\<close>

text \<open>
  \<open>str.lower\<close> on the ASCII letters. The extensions the program compares with are ASCII,
  and no other character lowers to one of their letters.
\<close>

definition lower_char :: "char \<Rightarrow> char" where
  "lower_char c =
     (let n = (of_char c :: nat) in if 65 \<le> n \<and> n \<le> 90 then char_of (n + 32) else c)"

definition lower :: "string \<Rightarrow> string" where
  "lower s = map lower_char s"

text \<open>
  \<open>s.rsplit(sep, 1)\<close> for a one-character separator: the string itself when the
  separator does not occur, else the part before the last separator and the part after it.
\<close>

definition rsplit1 :: "char \<Rightarrow> string \<Rightarrow> string list" where
  "rsplit1 sep s =
     (if sep \<in> set s
      then [rev (tl (dropWhile (\<lambda>c. c \<noteq> sep) (rev s))), rev (takeWhile (\<lambda>c. c \<noteq> sep) (rev s))]
      else [s])"

text \<open>\<open>os.path.basename\<close> (posixpath): what follows the last slash.\<close>

definition basename :: "string \<Rightarrow> string" where
  "basename p = rev (takeWhile (\<lambda>c. c \<noteq> CHR ''/'') (rev p))"

text \<open>\<open>os.path.join\<close> (posixpath) of two components.\<close>

definition os_path_join :: "string \<Rightarrow> string \<Rightarrow> string" where
  "os_path_join a b =
     (if b \<noteq> [] \<and> hd b = CHR ''/'' then b
      else if a = [] \<or> last a = CHR ''/'' then a @ b
      else a @ ''/'' @ b)"

text \<open>
  \<open>os.path.splitext(p)[1]\<close> (genericpath._splitext): the extension starts at the last dot
  of the last path component, unless only dots precede it there.
\<close>

definition splitext_ext :: "string \<Rightarrow> string" where
  "splitext_ext p =
     (let name = basename p;
          stem = rev (tl (dropWhile (\<lambda>c. c \<noteq> CHR ''.'') (rev name)));
          ext = CHR ''.'' # rev (takeWhile (\<lambda>c. c \<noteq> CHR ''.'') (rev name))
      in if CHR ''.'' \<in> set name \<and> (\<exists>c \<in> set stem. c \<noteq> CHR ''.'') then ext else [])"

section \<open>allowed\_file (lines 35-38)\<close>

definition allowed_file :: "string \<Rightarrow> bool" where
  "allowed_file filename \<longleftrightarrow>
     CHR ''.'' \<in> set filename \<and> lower (rsplit1 (CHR ''.'') filename ! 1) \<in> ALLOWED_EXTENSIONS"

section \<open>The image store and the process state (lines 29-32)\<close>

record image =
  path :: string
  timestamp :: int

text \<open>
  A paste of one fitted image onto the collage: \<open>ImageOps.fit\<close> returns an image of exactly
  the requested size, and \<open>collage.paste(img, (x, y))\<close> covers the box of that size whose
  upper left corner is \<open>(x, y)\<close>. A collage is the white A4 canvas with its pastes, in order.
\<close>

record paste =
  source :: string
  box_left :: int
  box_top :: int
  box_width :: int
  box_height :: int

type_synonym collage = "paste list"

datatype event =
    New_collage string "string list"
  | New_upload string "string list"
  | Initial_state "string list" "string option" int

datatype error = Decode_failed string | Save_failed

text \<open>
  The globals \<open>uploaded_images\<close>, \<open>last_collage_time\<close> and \<open>recent_collage\<close>, with the two
  effects the program has on the world outside: the collage files it has written
  (\<open>collage.save\<close>) and the events it has emitted (\<open>socketio.emit\<close>, \<open>emit\<close>), oldest first.
\<close>

record state =
  uploaded_images :: "image list"
  last_collage_time :: int
  recent_collage :: "string option"
  saved :: "(string \<times> collage) list"
  emitted :: "event list"

section \<open>The world a cycle runs in\<close>

text \<open>
  What \<open>create_dynamic_collage\<close> reads from outside the program during one call:
  \<open>datetime.now()\<close> at line 49, the formatted \<open>datetime.now()\<close> of the file name
  (lines 60 and 142), whether \<open>Image.open\<close> followed by \<open>ImageOps.fit\<close> to a given size
  returns for a given path (it raises otherwise), and whether \<open>collage.save\<close> returns.
\<close>

record env =
  current_time :: int
  name_stamp :: string
  decodes :: "string \<Rightarrow> int \<times> int \<Rightarrow> bool"
  save_ok :: bool

section \<open>The window and the cleanup (lines 50-53 and 172-175)\<close>

definition recent_images :: "int \<Rightarrow> image list \<Rightarrow> image list" where
  "recent_images now imgs =
     filter (\<lambda>img. now - timestamp img \<le> timedelta_seconds COLLAGE_INTERVAL) imgs"

definition clean_up :: "int \<Rightarrow> image list \<Rightarrow> image list" where
  "clean_up now imgs =
     filter (\<lambda>img. now - timestamp img \<le> timedelta_seconds COLLAGE_INTERVAL) imgs"

section \<open>The layouts (lines 77-139)\<close>

text \<open>
  \<open>Image.open\<close>, \<open>ImageOps.fit\<close> and \<open>collage.paste\<close> of one image: the exception of a
  failed decode leaves the function, so it is the result.
\<close>

definition paste_fitted ::
  "(string \<Rightarrow> int \<times> int \<Rightarrow> bool) \<Rightarrow> collage \<Rightarrow> image \<Rightarrow> int \<times> int \<Rightarrow> int \<times> int \<Rightarrow> error + collage"
where
  "paste_fitted dec c img sz pos =
     (if dec (path img) sz
      then Inr (c @ [\<lparr>source = path img, box_left = fst pos, box_top = snd pos,
                      box_width = fst sz, box_height = snd sz\<rparr>])
      else Inl (Decode_failed (path img)))"

text \<open>
  \<open>int(np.ceil(np.sqrt(num_images)))\<close>, on the reals. (The double-precision square root
  gives the same integer for every count below \<open>2^52\<close>.)
\<close>

definition grid_size :: "nat \<Rightarrow> int" where
  "grid_size num_images = \<lceil>sqrt (real num_images)\<rceil>"

text \<open>
  The same number by a search through the integers, for evaluation: the least \<open>g\<close> from
  a start on with \<open>n \<le> g * g\<close> (\<open>grid_size_code\<close> below proves that the two agree).
\<close>

function grid_search :: "nat \<Rightarrow> nat \<Rightarrow> nat" where
  "grid_search g n = (if n \<le> g * g then g else grid_search (Suc g) n)"
  by pat_completeness auto
termination
proof (relation "measure (\<lambda>(g, n). n - g)")
  show "wf (measure (\<lambda>(g, n). n - g))" by simp
next
  fix g n :: nat
  assume a: "\<not> n \<le> g * g"
  have "g \<le> g * g" by (cases g) simp_all
  with a have "g < n" by linarith
  then show "((Suc g, n), (g, n)) \<in> measure (\<lambda>(g, n). n - g)" by simp
qed

text \<open>The loop of lines 129-139; \<open>i\<close> is the index \<open>enumerate\<close> has reached.\<close>

fun paste_grid ::
  "(string \<Rightarrow> int \<times> int \<Rightarrow> bool) \<Rightarrow> int \<Rightarrow> int \<Rightarrow> int \<Rightarrow> int \<Rightarrow> image list \<Rightarrow> collage \<Rightarrow> error + collage"
where
  "paste_grid dec g cell_width cell_height i [] c = Inr c"
| "paste_grid dec g cell_width cell_height i (img_data # rest) c =
     (let row = i div g;
          col = i mod g;
          x = col * cell_width;
          y = row * cell_height
      in case paste_fitted dec c img_data (cell_width, cell_height) (x, y) of
           Inl e \<Rightarrow> Inl e
         | Inr c' \<Rightarrow> paste_grid dec g cell_width cell_height (i + 1) rest c')"

text \<open>
  The branches of lines 79-139, on the images of the window. The function is reached
  with at least one image only (line 58 returns before it otherwise), so the indices
  read are in range and the grid size is not zero.
\<close>

definition layout_images :: "(string \<Rightarrow> int \<times> int \<Rightarrow> bool) \<Rightarrow> image list \<Rightarrow> error + collage" where
  "layout_images dec imgs =
     (let num_images = length imgs in
      if num_images = 1 then
        paste_fitted dec [] (imgs ! 0) A4_SIZE (0, 0)
      else if num_images = 2 then
        (let width = fst A4_SIZE;
             half_width = width div 2
         in case paste_fitted dec [] (imgs ! 0) (half_width, snd A4_SIZE) (0, 0) of
              Inl e \<Rightarrow> Inl e
            | Inr c1 \<Rightarrow>
                paste_fitted dec c1 (imgs ! 1) (width - half_width, snd A4_SIZE) (half_width, 0))
      else if num_images = 3 then
        (let width = fst A4_SIZE;
             height = snd A4_SIZE;
             top_height = height * 2 div 3;
             top_width = width div 2
         in case paste_fitted dec [] (imgs ! 0) (top_width, top_height) (0, 0) of
              Inl e \<Rightarrow> Inl e
            | Inr c1 \<Rightarrow>
               (case paste_fitted dec c1 (imgs ! 1) (width - top_width, top_height) (top_width, 0) of
                  Inl e \<Rightarrow> Inl e
                | Inr c2 \<Rightarrow>
                    paste_fitted dec c2 (imgs ! 2) (width, height - top_height) (0, top_height)))
      else
        (let width = fst A4_SIZE;
             height = snd A4_SIZE;
             g = grid_size num_images;
             cell_width = width div g;
             cell_height = height div g
         in paste_grid dec g cell_width cell_height 0 imgs []))"

section \<open>create\_dynamic\_collage (lines 41-156)\<close>

definition collage_save :: "env \<Rightarrow> string \<Rightarrow> collage \<Rightarrow> state \<Rightarrow> error + state" where
  "collage_save e collage_path c st =
     (if save_ok e then Inr (st\<lparr>saved := saved st @ [(collage_path, c)]\<rparr>) else Inl Save_failed)"

text \<open>
  The tail both branches share (lines 60-74 and 142-156): name the file, save it, update
  the two globals, emit the event with the given list of image names.
\<close>

definition save_and_announce ::
  "env \<Rightarrow> collage \<Rightarrow> string list \<Rightarrow> state \<Rightarrow> error + (string \<times> state)"
where
  "save_and_announce e c names st =
     (let collage_filename = ''collage_'' @ name_stamp e @ ''.jpg'';
          collage_path = os_path_join COLLAGE_FOLDER collage_filename
      in case collage_save e collage_path c st of
           Inl err \<Rightarrow> Inl err
         | Inr st1 \<Rightarrow>
             Inr (collage_filename,
                  st1\<lparr>last_collage_time := current_time e,
                      recent_collage := Some collage_filename,
                      emitted := emitted st1 @ [New_collage collage_filename names]\<rparr>))"

definition create_dynamic_collage :: "env \<Rightarrow> state \<Rightarrow> error + (string \<times> state)" where
  "create_dynamic_collage e st =
     (let recent = recent_images (current_time e) (uploaded_images st) in
      if recent = [] then save_and_announce e [] [] st
      else
        (case layout_images (decodes e) recent of
           Inl err \<Rightarrow> Inl err
         | Inr c \<Rightarrow>
             save_and_announce e c (map (\<lambda>img. basename (path img)) (uploaded_images st)) st))"

section \<open>collage\_scheduler (lines 160-175)\<close>

text \<open>
  One turn of the loop reads the world of its call of \<open>create_dynamic_collage\<close> and the
  \<open>datetime.now()\<close> of line 171. The loop never ends by itself; it is run here on the
  turns of a finite prefix. An exception of the call is caught nowhere: it ends the loop
  and the thread, with the state as it was, and is returned with it.
\<close>

record tick =
  cycle_env :: env
  cleanup_time :: int

fun collage_scheduler :: "tick list \<Rightarrow> state \<Rightarrow> error option \<times> state" where
  "collage_scheduler [] st = (None, st)"
| "collage_scheduler (t # ts) st =
     (case create_dynamic_collage (cycle_env t) st of
        Inl err \<Rightarrow> (Some err, st)
      | Inr (collage_filename, st1) \<Rightarrow>
          collage_scheduler ts
            (st1\<lparr>uploaded_images := clean_up (cleanup_time t) (uploaded_images st1)\<rparr>))"

text \<open>
  The clock of the loop, in seconds: \<open>time.sleep(COLLAGE_INTERVAL)\<close> suspends the thread
  for the interval and for what it oversleeps (the call never returns early), and the
  turn that follows takes its own duration. The function lists the clock at the start of
  each turn, from the clock at the start of the loop and, for every turn, the time
  overslept before it and its duration.
\<close>

fun cycle_starts :: "int \<Rightarrow> (int \<times> int) list \<Rightarrow> int list" where
  "cycle_starts clock [] = []"
| "cycle_starts clock ((overslept, duration) # rest) =
     (let start = clock + COLLAGE_INTERVAL + overslept
      in start # cycle_starts (start + duration) rest)"

section \<open>upload\_file (lines 193-224)\<close>

text \<open>
  A request carries the file part or not (\<open>'file' in request.files\<close>), and the part its
  file name. The world of one call: the \<open>uuid4\<close> drawn, whether \<open>file.save\<close> returns, and
  \<open>datetime.now()\<close> of line 213.
\<close>

record upload_env =
  uuid4 :: string
  file_save_ok :: bool
  upload_time :: int

datatype response =
    Json_error string nat
  | Json_ok string string nat
  | Raised

definition upload_file :: "upload_env \<Rightarrow> string option \<Rightarrow> state \<Rightarrow> response \<times> state" where
  "upload_file e file_part st =
     (case file_part of
        None \<Rightarrow> (Json_error ''No file part'' 400, st)
      | Some file_name \<Rightarrow>
          if file_name = [] then (Json_error ''No selected file'' 400, st)
          else if allowed_file file_name then
            (let filename = uuid4 e @ splitext_ext file_name;
                 filepath = os_path_join UPLOAD_FOLDER filename
             in if \<not> file_save_ok e then (Raised, st)
                else
                  (let imgs = uploaded_images st @ [\<lparr>path = filepath, timestamp = upload_time e\<rparr>]
                   in (Json_ok ''File uploaded successfully'' filename 200,
                       st\<lparr>uploaded_images := imgs,
                          emitted := emitted st @
                            [New_upload filename (map (\<lambda>img. basename (path img)) imgs)]\<rparr>)))
          else (Json_error ''File type not allowed'' 400, st))"

section \<open>handle\_connect (lines 227-234)\<close>

text \<open>
  \<open>total_seconds()\<close> is the difference in seconds, a fraction. (It is a double in the
  program; a difference is a whole number of microseconds, and for differences of years
  the rounding stays far below a microsecond, so the integer that \<open>int\<close> gives is the
  same.) \<open>int\<close> cuts a fraction towards zero.
\<close>

definition total_seconds :: "int \<Rightarrow> rat" where
  "total_seconds delta = of_int delta / 1000000"

definition py_int :: "rat \<Rightarrow> int" where
  "py_int x = (if 0 \<le> x then \<lfloor>x\<rfloor> else \<lceil>x\<rceil>)"

definition remaining_time :: "int \<Rightarrow> int \<Rightarrow> int" where
  "remaining_time now last_time =
     py_int (max 0 (of_int COLLAGE_INTERVAL - total_seconds (now - last_time)))"

definition handle_connect :: "int \<Rightarrow> state \<Rightarrow> event" where
  "handle_connect now st =
     Initial_state (map (\<lambda>img. basename (path img)) (uploaded_images st))
       (recent_collage st) (remaining_time now (last_collage_time st))"

section \<open>Boxes on the canvas\<close>

text \<open>
  The pixels a paste covers, the two properties of a placement that the layouts are to
  have (inside the canvas; no pixel shared with another paste), and the box of cell
  number \<open>i\<close> of a grid of \<open>g\<close> columns, counted row by row from the upper left corner.
\<close>

definition pixels :: "paste \<Rightarrow> (int \<times> int) set" where
  "pixels p =
     {(x, y). box_left p \<le> x \<and> x < box_left p + box_width p \<and>
              box_top p \<le> y \<and> y < box_top p + box_height p}"

definition in_canvas :: "paste \<Rightarrow> bool" where
  "in_canvas p \<longleftrightarrow>
     0 \<le> box_left p \<and> 0 \<le> box_top p \<and> 0 \<le> box_width p \<and> 0 \<le> box_height p \<and>
     box_left p + box_width p \<le> fst A4_SIZE \<and> box_top p + box_height p \<le> snd A4_SIZE"

definition boxes_overlap :: "paste \<Rightarrow> paste \<Rightarrow> bool" where
  "boxes_overlap p q \<longleftrightarrow>
     max (box_left p) (box_left q) < min (box_left p + box_width p) (box_left q + box_width q) \<and>
     max (box_top p) (box_top q) < min (box_top p + box_height p) (box_top q + box_height q)"

fun pairwise_apart :: "paste list \<Rightarrow> bool" where
  "pairwise_apart [] = True"
| "pairwise_apart (p # ps) = (list_all (\<lambda>q. \<not> boxes_overlap p q) ps \<and> pairwise_apart ps)"

definition grid_paste :: "int \<Rightarrow> int \<Rightarrow> int \<Rightarrow> int \<Rightarrow> image \<Rightarrow> paste" where
  "grid_paste g cw ch i img =
     \<lparr>source = path img, box_left = (i mod g) * cw, box_top = (i div g) * ch,
      box_width = cw, box_height = ch\<rparr>"

section \<open>Example stores and worlds\<close>

text \<open>
  The inputs of the examples below. Times count microseconds from some origin: the
  images arrive in the first seconds, the first turn of the scheduler reads its window
  at 60 s, the next one at 121 s.
\<close>

definition fresh_state :: state where
  "fresh_state =
     \<lparr>uploaded_images = [], last_collage_time = 0, recent_collage = None, saved = [], emitted = []\<rparr>"

definition five_images :: "image list" where
  "five_images =
     [\<lparr>path = ''uploads/a.png'', timestamp = 1000000\<rparr>,
      \<lparr>path = ''uploads/b.png'', timestamp = 2000000\<rparr>,
      \<lparr>path = ''uploads/c.png'', timestamp = 3000000\<rparr>,
      \<lparr>path = ''uploads/d.png'', timestamp = 4000000\<rparr>,
      \<lparr>path = ''uploads/e.png'', timestamp = 5000000\<rparr>]"

definition five_state :: state where
  "five_state = fresh_state\<lparr>uploaded_images := five_images\<rparr>"

definition five_collage :: collage where
  "five_collage =
     [\<lparr>source = ''uploads/a.png'', box_left = 0, box_top = 0, box_width = 826, box_height = 1169\<rparr>,
      \<lparr>source = ''uploads/b.png'', box_left = 826, box_top = 0, box_width = 826, box_height = 1169\<rparr>,
      \<lparr>source = ''uploads/c.png'', box_left = 1652, box_top = 0, box_width = 826, box_height = 1169\<rparr>,
      \<lparr>source = ''uploads/d.png'', box_left = 0, box_top = 1169, box_width = 826, box_height = 1169\<rparr>,
      \<lparr>source = ''uploads/e.png'', box_left = 826, box_top = 1169, box_width = 826, box_height = 1169\<rparr>]"

definition after_five :: state where
  "after_five =
     \<lparr>uploaded_images = five_images, last_collage_time = 60000000,
      recent_collage = Some ''collage_20240101_120000.jpg'',
      saved = [(''collages/collage_20240101_120000.jpg'', five_collage)],
      emitted = [New_collage ''collage_20240101_120000.jpg''
                   [''a.png'', ''b.png'', ''c.png'', ''d.png'', ''e.png'']]\<rparr>"

definition good_env :: env where
  "good_env =
     \<lparr>current_time = 60000000, name_stamp = ''20240101_120000'',
      decodes = (\<lambda>p sz. True), save_ok = True\<rparr>"

definition three_images :: "image list" where
  "three_images =
     [\<lparr>path = ''uploads/a.png'', timestamp = 1000000\<rparr>,
      \<lparr>path = ''uploads/b.png'', timestamp = 2000000\<rparr>,
      \<lparr>path = ''uploads/c.png'', timestamp = 3000000\<rparr>]"

definition three_state :: state where
  "three_state = fresh_state\<lparr>uploaded_images := three_images\<rparr>"

definition corrupt_env :: env where
  "corrupt_env = good_env\<lparr>decodes := (\<lambda>p sz. p \<noteq> ''uploads/b.png'')\<rparr>"

definition full_disk_env :: env where
  "full_disk_env = good_env\<lparr>save_ok := False\<rparr>"

definition stale_state :: state where
  "stale_state = fresh_state\<lparr>uploaded_images := [\<lparr>path = ''uploads/a.png'', timestamp = 1000000\<rparr>]\<rparr>"

definition late_env :: env where
  "late_env = good_env\<lparr>current_time := 62000000, name_stamp := ''20240101_120002''\<rparr>"

definition next_env :: env where
  "next_env = good_env\<lparr>current_time := 121000000, name_stamp := ''20240101_120101''\<rparr>"

definition corrupt_tick :: tick where
  "corrupt_tick = \<lparr>cycle_env = corrupt_env, cleanup_time = 60500000\<rparr>"

definition full_disk_tick :: tick where
  "full_disk_tick = \<lparr>cycle_env = full_disk_env, cleanup_time = 60500000\<rparr>"

definition next_tick :: tick where
  "next_tick = \<lparr>cycle_env = next_env, cleanup_time = 121500000\<rparr>"

definition some_upload :: upload_env where
  "some_upload =
     \<lparr>uuid4 = ''0f8fad5b-d9cb-469f-a165-70867728950e'', file_save_ok = True,
      upload_time = 59000000\<rparr>"

definition late_upload :: upload_env where
  "late_upload =
     \<lparr>uuid4 = ''0f8fad5b-d9cb-469f-a165-70867728950e'', file_save_ok = True,
      upload_time = 60200000\<rparr>"

definition cat_image :: image where
  "cat_image =
     \<lparr>path = ''uploads/0f8fad5b-d9cb-469f-a165-70867728950e.png'', timestamp = 60200000\<rparr>"

definition same_now_tick :: tick where
  "same_now_tick =
     \<lparr>cycle_env = good_env\<lparr>current_time := 63500000, name_stamp := ''20240101_120003''\<rparr>,
      cleanup_time = 63500000\<rparr>"

definition last_two_images :: "image list" where
  "last_two_images =
     [\<lparr>path = ''uploads/d.png'', timestamp = 4000000\<rparr>,
      \<lparr>path = ''uploads/e.png'', timestamp = 5000000\<rparr>]"

definition after_same_now :: state where
  "after_same_now =
     \<lparr>uploaded_images = last_two_images, last_collage_time = 63500000,
      recent_collage = Some ''collage_20240101_120003.jpg'',
      saved = [(''collages/collage_20240101_120003.jpg'',
                [\<lparr>source = ''uploads/d.png'', box_left = 0, box_top = 0,
                  box_width = 1240, box_height = 3508\<rparr>,
                 \<lparr>source = ''uploads/e.png'', box_left = 1240, box_top = 0,
                  box_width = 1240, box_height = 3508\<rparr>])],
      emitted = [New_collage ''collage_20240101_120003.jpg''
                   [''a.png'', ''b.png'', ''c.png'', ''d.png'', ''e.png'']]\<rparr>"

section \<open>Facts about the layouts\<close>

lemma paste_fitted_Inr:
  "paste_fitted dec c img sz pos = Inr c' \<longleftrightarrow>
     dec (path img) sz \<and>
     c' = c @ [\<lparr>source = path img, box_left = fst pos, box_top = snd pos,
                 box_width = fst sz, box_height = snd sz\<rparr>]"
  by (auto simp: paste_fitted_def)

lemma paste_fitted_Inl:
  "paste_fitted dec c img sz pos = Inl e \<longleftrightarrow> \<not> dec (path img) sz \<and> e = Decode_failed (path img)"
  by (auto simp: paste_fitted_def)

lemma paste_grid_Inr:
  "paste_grid dec g cw ch i imgs c0 = Inr c \<Longrightarrow>
     c = c0 @ map (\<lambda>k. grid_paste g cw ch (i + int k) (imgs ! k)) [0..<length imgs]"
proof (induction imgs arbitrary: i c0)
  case Nil
  then show ?case by simp
next
  case (Cons a rest)
  from Cons.prems have d: "dec (path a) (cw, ch)"
    by (simp add: Let_def paste_fitted_def split: if_splits)
  with Cons.prems
  have "paste_grid dec g cw ch (i + 1) rest (c0 @ [grid_paste g cw ch i a]) = Inr c"
    by (simp add: Let_def paste_fitted_def grid_paste_def)
  from Cons.IH [OF this] show ?case
    by (simp add: map_upt_Suc add.assoc del: upt_Suc)
qed

lemma paste_grid_decodes:
  "paste_grid dec g cw ch i imgs c0 = Inr c \<Longrightarrow> \<forall>img \<in> set imgs. dec (path img) (cw, ch)"
proof (induction imgs arbitrary: i c0)
  case Nil
  then show ?case by simp
next
  case (Cons a rest)
  from Cons.prems have d: "dec (path a) (cw, ch)"
    by (simp add: Let_def paste_fitted_def split: if_splits)
  with Cons.prems
  have "paste_grid dec g cw ch (i + 1) rest (c0 @ [grid_paste g cw ch i a]) = Inr c"
    by (simp add: Let_def paste_fitted_def grid_paste_def)
  from Cons.IH [OF this] d show ?case by simp
qed

lemma paste_grid_returns:
  "\<forall>img \<in> set imgs. dec (path img) (cw, ch) \<Longrightarrow>
     paste_grid dec g cw ch i imgs c0 =
       Inr (c0 @ map (\<lambda>k. grid_paste g cw ch (i + int k) (imgs ! k)) [0..<length imgs])"
proof (induction imgs arbitrary: i c0)
  case Nil
  then show ?case by simp
next
  case (Cons a rest)
  then show ?case
    by (simp add: Let_def paste_fitted_def grid_paste_def map_upt_Suc add.assoc del: upt_Suc)
qed

lemma paste_grid_Inl:
  "paste_grid dec g cw ch i imgs c0 = Inl e \<Longrightarrow>
     \<exists>img \<in> set imgs. \<not> dec (path img) (cw, ch) \<and> e = Decode_failed (path img)"
proof (induction imgs arbitrary: i c0)
  case Nil
  then show ?case by simp
next
  case (Cons a rest)
  then show ?case
    by (auto simp: Let_def paste_fitted_def split: if_splits)
qed

lemma grid_size_unique:
  assumes "(g - 1) * (g - 1) < int n" and "int n \<le> g * g" and "1 \<le> g"
  shows "grid_size n = g"
proof -
  have "real_of_int (g - 1) * real_of_int (g - 1) < real n"
    using assms(1) by (metis of_int_less_iff of_int_mult of_int_of_nat_eq)
  then have "(real_of_int (g - 1))\<^sup>2 < real n" by (simp add: power2_eq_square)
  then have lo: "real_of_int (g - 1) < sqrt (real n)"
    by (rule real_less_rsqrt)
  have "real n \<le> real_of_int g * real_of_int g"
    using assms(2) by (metis of_int_le_iff of_int_mult of_int_of_nat_eq)
  then have "real n \<le> (real_of_int g)\<^sup>2" by (simp add: power2_eq_square)
  moreover have "0 \<le> real_of_int g" using assms(3) by simp
  ultimately have hi: "sqrt (real n) \<le> real_of_int g"
    by (simp add: real_le_lsqrt)
  show ?thesis
    unfolding grid_size_def using lo hi by (intro ceiling_unique) simp_all
qed

lemma grid_size_bounds:
  assumes "0 < n"
  shows "1 \<le> grid_size n \<and> (grid_size n - 1) * (grid_size n - 1) < int n \<and> int n \<le> grid_size n * grid_size n"
proof -
  let ?s = "sqrt (real n)"
  let ?g = "grid_size n"
  have spos: "0 < ?s" using assms by simp
  have g1: "1 \<le> ?g" unfolding grid_size_def using spos by (simp add: ceiling_le_iff less_ceiling_iff) 
  have le: "?s \<le> real_of_int ?g" unfolding grid_size_def by (rule le_of_int_ceiling)
  have "?s * ?s \<le> real_of_int ?g * real_of_int ?g"
    using le spos g1 by (intro mult_mono) simp_all
  then have "real n \<le> real_of_int (?g * ?g)" by simp
  then have up: "int n \<le> ?g * ?g" by (metis of_int_le_iff of_int_of_nat_eq)
  have lt: "real_of_int ?g - 1 < ?s" unfolding grid_size_def by linarith
  have nn: "0 \<le> real_of_int ?g - 1" using g1 by simp
  have "(real_of_int ?g - 1) * (real_of_int ?g - 1) < ?s * ?s"
    using lt nn spos by (intro mult_strict_mono') simp_all
  then have "real_of_int ((?g - 1) * (?g - 1)) < real n" by simp
  then have lo: "(?g - 1) * (?g - 1) < int n" by (metis of_int_less_iff of_int_of_nat_eq)
  from g1 lo up show ?thesis by simp
qed


lemma layout_one: "layout_images dec [a] = paste_fitted dec [] a (2480, 3508) (0, 0)"
  by (simp add: layout_images_def A4_SIZE_def)

lemma layout_two:
  "layout_images dec [a, b] =
     (case paste_fitted dec [] a (1240, 3508) (0, 0) of
        Inl e \<Rightarrow> Inl e
      | Inr c1 \<Rightarrow> paste_fitted dec c1 b (1240, 3508) (1240, 0))"
  by (simp add: layout_images_def A4_SIZE_def split: sum.splits)

lemma layout_three:
  "layout_images dec [a, b, c] =
     (case paste_fitted dec [] a (1240, 2338) (0, 0) of
        Inl e \<Rightarrow> Inl e
      | Inr c1 \<Rightarrow>
         (case paste_fitted dec c1 b (1240, 2338) (1240, 0) of
            Inl e \<Rightarrow> Inl e
          | Inr c2 \<Rightarrow> paste_fitted dec c2 c (2480, 1170) (0, 2338)))"
  by (simp add: layout_images_def A4_SIZE_def split: sum.splits)

lemma layout_grid:
  "4 \<le> length imgs \<Longrightarrow>
     layout_images dec imgs =
       paste_grid dec (grid_size (length imgs)) (2480 div grid_size (length imgs))
         (3508 div grid_size (length imgs)) 0 imgs []"
  by (simp add: layout_images_def A4_SIZE_def Let_def)

lemma layout_empty: "layout_images dec [] = Inr []"
  by (simp add: layout_images_def Let_def)

lemma image_list_cases:
  obtains "imgs = []" | a where "imgs = [a]" | a b where "imgs = [a, b]"
  | a b c where "imgs = [a, b, c]" | "4 \<le> length imgs"
proof (cases imgs)
  case Nil
  then show ?thesis using that by simp
next
  case (Cons a r1)
  note c1 = this
  show ?thesis
  proof (cases r1)
    case Nil
    with c1 show ?thesis using that by simp
  next
    case (Cons b r2)
    note c2 = this
    show ?thesis
    proof (cases r2)
      case Nil
      with c1 c2 show ?thesis using that by simp
    next
      case (Cons c r3)
      note c3 = this
      show ?thesis
      proof (cases r3)
        case Nil
        with c1 c2 c3 show ?thesis using that by simp
      next
        case (Cons d r4)
        with c1 c2 c3 show ?thesis using that by simp
      qed
    qed
  qed
qed

lemma layout_sources:
  assumes "layout_images dec imgs = Inr c"
  shows "map source c = map path imgs"
proof (cases imgs rule: image_list_cases)
  case 1
  with assms show ?thesis by (simp add: layout_empty)
next
  case (2 a)
  with assms show ?thesis by (auto simp: layout_one paste_fitted_def split: if_splits)
next
  case (3 a b)
  with assms show ?thesis by (auto simp: layout_two paste_fitted_def split: if_splits sum.splits)
next
  case (4 a b c)
  with assms show ?thesis
    by (auto simp: layout_three paste_fitted_def split: if_splits sum.splits)
next
  case 5
  with assms have "c = map (\<lambda>k. grid_paste (grid_size (length imgs)) (2480 div grid_size (length imgs))
         (3508 div grid_size (length imgs)) (0 + int k) (imgs ! k)) [0..<length imgs]"
    using paste_grid_Inr [of dec _ _ _ 0 imgs "[]" c] by (simp add: layout_grid)
  then have "map source c = map (\<lambda>k. path (imgs ! k)) [0..<length imgs]"
    by (simp add: grid_paste_def o_def)
  also have "\<dots> = map path imgs"
    by (rule nth_equalityI) simp_all
  finally show ?thesis .
qed

lemma layout_Inl:
  assumes "layout_images dec imgs = Inl e"
  shows "\<exists>img \<in> set imgs. \<exists>sz. \<not> dec (path img) sz \<and> e = Decode_failed (path img)"
proof (cases imgs rule: image_list_cases)
  case 1
  with assms show ?thesis by (simp add: layout_empty)
next
  case (2 a)
  with assms show ?thesis by (auto simp: layout_one paste_fitted_def split: if_splits)
next
  case (3 a b)
  with assms show ?thesis by (auto simp: layout_two paste_fitted_def split: if_splits sum.splits)
next
  case (4 a b c)
  with assms show ?thesis
    by (auto simp: layout_three paste_fitted_def split: if_splits sum.splits)
next
  case 5
  with assms have "paste_grid dec (grid_size (length imgs)) (2480 div grid_size (length imgs))
         (3508 div grid_size (length imgs)) 0 imgs [] = Inl e"
    by (simp add: layout_grid)
  from paste_grid_Inl [OF this] show ?thesis by blast
qed

lemma layout_Inr_decodes:
  assumes "layout_images dec imgs = Inr c"
  shows "\<forall>img \<in> set imgs. \<exists>sz. dec (path img) sz"
proof (cases imgs rule: image_list_cases)
  case 1
  with assms show ?thesis by (simp add: layout_empty)
next
  case (2 a)
  with assms show ?thesis by (auto simp: layout_one paste_fitted_def split: if_splits)
next
  case (3 a b)
  with assms show ?thesis by (auto simp: layout_two paste_fitted_def split: if_splits sum.splits)
next
  case (4 a b c)
  with assms show ?thesis
    by (auto simp: layout_three paste_fitted_def split: if_splits sum.splits)
next
  case 5
  with assms have "paste_grid dec (grid_size (length imgs)) (2480 div grid_size (length imgs))
         (3508 div grid_size (length imgs)) 0 imgs [] = Inr c"
    by (simp add: layout_grid)
  from paste_grid_decodes [OF this] show ?thesis by blast
qed

lemma layout_returns:
  assumes "\<forall>img \<in> set imgs. \<forall>sz. dec (path img) sz"
  shows "\<exists>c. layout_images dec imgs = Inr c"
proof (cases "layout_images dec imgs")
  case (Inl e)
  from layout_Inl [OF this] assms show ?thesis by blast
next
  case (Inr c)
  then show ?thesis by blast
qed

text \<open>The integer search computes the grid size.\<close>

declare grid_search.simps [simp del]

lemma grid_search_least:
  assumes "g = 0 \<or> (g - 1) * (g - 1) < n"
  shows "n \<le> grid_search g n * grid_search g n \<and>
         (grid_search g n = 0 \<or> (grid_search g n - 1) * (grid_search g n - 1) < n)"
  using assms
proof (induction g n rule: grid_search.induct)
  case (1 g n)
  show ?case
  proof (cases "n \<le> g * g")
    case True
    with "1.prems" show ?thesis by (simp add: grid_search.simps [of g n])
  next
    case False
    then have "Suc g = 0 \<or> (Suc g - 1) * (Suc g - 1) < n" by simp
    from "1.IH" [OF False this] False show ?thesis by (simp add: grid_search.simps [of g n])
  qed
qed

lemma grid_size_code [code]: "grid_size n = int (grid_search 0 n)"
proof (cases "n = 0")
  case True
  then show ?thesis by (simp add: grid_size_def grid_search.simps [of 0 0])
next
  case False
  let ?r = "grid_search 0 n"
  from grid_search_least [of 0 n]
  have up: "n \<le> ?r * ?r" and lo: "?r = 0 \<or> (?r - 1) * (?r - 1) < n" by simp_all
  from up False have r: "1 \<le> ?r" by (cases ?r) simp_all
  with lo have lo': "(?r - 1) * (?r - 1) < n" by simp
  have "(int ?r - 1) * (int ?r - 1) = int ((?r - 1) * (?r - 1))" using r by (simp add: of_nat_diff)
  also have "\<dots> < int n" using lo' by (simp only: of_nat_less_iff)
  finally have a: "(int ?r - 1) * (int ?r - 1) < int n" .
  have b: "int n \<le> int ?r * int ?r" using up by (metis of_nat_le_iff of_nat_mult)
  from grid_size_unique [OF a b] r show ?thesis by simp
qed

section \<open>Facts about boxes and grid cells\<close>

lemma boxes_overlap_pixels: "boxes_overlap p q \<longleftrightarrow> pixels p \<inter> pixels q \<noteq> {}"
proof
  assume "boxes_overlap p q"
  then have "(max (box_left p) (box_left q), max (box_top p) (box_top q)) \<in> pixels p \<inter> pixels q"
    by (auto simp: boxes_overlap_def pixels_def)
  then show "pixels p \<inter> pixels q \<noteq> {}" by blast
next
  assume "pixels p \<inter> pixels q \<noteq> {}"
  then obtain x y where "(x, y) \<in> pixels p" "(x, y) \<in> pixels q" by auto
  then show "boxes_overlap p q"
    by (auto simp: boxes_overlap_def pixels_def)
qed

lemma boxes_overlap_sym: "boxes_overlap p q \<longleftrightarrow> boxes_overlap q p"
  by (auto simp: boxes_overlap_def max.commute min.commute)

lemma in_canvas_pixels:
  "in_canvas p \<Longrightarrow> pixels p \<subseteq> {(x, y). 0 \<le> x \<and> x < 2480 \<and> 0 \<le> y \<and> y < 3508}"
  by (auto simp: in_canvas_def pixels_def A4_SIZE_def)

lemma pairwise_apart_nth:
  "pairwise_apart ps \<Longrightarrow> i < j \<Longrightarrow> j < length ps \<Longrightarrow> \<not> boxes_overlap (ps ! i) (ps ! j)"
proof (induction ps arbitrary: i j)
  case Nil
  then show ?case by simp
next
  case (Cons p ps)
  from Cons.prems obtain j' where j: "j = Suc j'" by (cases j) auto
  show ?case
  proof (cases i)
    case 0
    with Cons.prems j show ?thesis by (simp add: list_all_length)
  next
    case (Suc i')
    with Cons.prems j Cons.IH [of i' j'] show ?thesis by simp
  qed
qed

lemma pairwise_apartI:
  "(\<And>i j. i < j \<Longrightarrow> j < length ps \<Longrightarrow> \<not> boxes_overlap (ps ! i) (ps ! j)) \<Longrightarrow> pairwise_apart ps"
proof (induction ps)
  case Nil
  then show ?case by simp
next
  case (Cons p ps)
  have "list_all (\<lambda>q. \<not> boxes_overlap p q) ps"
    unfolding list_all_length
  proof (intro allI impI)
    fix n assume "n < length ps"
    then show "\<not> boxes_overlap p (ps ! n)" using Cons.prems [of 0 "Suc n"] by simp
  qed
  moreover have "pairwise_apart ps"
  proof (rule Cons.IH)
    fix i j assume "i < j" "j < length ps"
    then show "\<not> boxes_overlap (ps ! i) (ps ! j)" using Cons.prems [of "Suc i" "Suc j"] by simp
  qed
  ultimately show ?case by simp
qed

lemma mult_div_le_int:
  fixes a g :: int
  assumes "0 < g"
  shows "g * (a div g) \<le> a"
proof -
  have "g * (a div g) + a mod g = a" by simp
  moreover have "0 \<le> a mod g" using assms by simp
  ultimately show ?thesis by linarith
qed

lemma int_div_less_square:
  fixes i g :: int
  assumes "0 < g" "i < g * g"
  shows "i div g < g"
proof (rule ccontr)
  assume "\<not> i div g < g"
  then have "g \<le> i div g" by simp
  then have "g * g \<le> g * (i div g)" using assms(1) by (intro mult_left_mono) simp_all
  also have "\<dots> \<le> i" using assms(1) by (rule mult_div_le_int)
  finally show False using assms(2) by simp
qed

lemma grid_paste_in_canvas:
  assumes "0 < g" "0 \<le> i" "i < g * g"
  shows "in_canvas (grid_paste g (2480 div g) (3508 div g) i img)"
proof -
  let ?cw = "2480 div g" and ?ch = "3508 div g"
  have cw: "0 \<le> ?cw" and ch: "0 \<le> ?ch" using assms(1) by (simp_all add: pos_imp_zdiv_nonneg_iff)
  have col: "0 \<le> i mod g" "i mod g + 1 \<le> g"
    using pos_mod_sign [of g i] pos_mod_bound [of g i] assms(1) by linarith+
  have row: "0 \<le> i div g" "i div g + 1 \<le> g"
    using assms int_div_less_square [of g i] by (simp_all add: pos_imp_zdiv_nonneg_iff)
  have "(i mod g + 1) * ?cw \<le> g * ?cw" using col cw by (intro mult_right_mono) simp_all
  also have "\<dots> \<le> 2480" using assms(1) by (rule mult_div_le_int)
  finally have x: "i mod g * ?cw + ?cw \<le> 2480" by (simp add: algebra_simps)
  have "(i div g + 1) * ?ch \<le> g * ?ch" using row ch by (intro mult_right_mono) simp_all
  also have "\<dots> \<le> 3508" using assms(1) by (rule mult_div_le_int)
  finally have y: "i div g * ?ch + ?ch \<le> 3508" by (simp add: algebra_simps)
  from cw ch col row x y show ?thesis
    by (simp add: in_canvas_def grid_paste_def A4_SIZE_def)
qed

lemma strips_apart:
  fixes a b w :: int
  assumes "a < b" "0 \<le> w"
  shows "\<not> max (a * w) (b * w) < min (a * w + w) (b * w + w)"
proof -
  have "(a + 1) * w \<le> b * w" using assms by (intro mult_right_mono) simp_all
  then have "a * w + w \<le> b * w" by (simp add: algebra_simps)
  then show ?thesis by simp
qed

lemma grid_pastes_apart:
  assumes "0 < g" "0 \<le> cw" "0 \<le> ch" "i \<noteq> j"
  shows "\<not> boxes_overlap (grid_paste g cw ch i a) (grid_paste g cw ch j b)"
proof (cases "i mod g = j mod g")
  case True
  have "i div g \<noteq> j div g"
  proof
    assume "i div g = j div g"
    with True have "g * (i div g) + i mod g = g * (j div g) + j mod g" by simp
    then have "i = j" by (simp only: mult_div_mod_eq)
    with assms(4) show False by simp
  qed
  then consider "i div g < j div g" | "j div g < i div g" by linarith
  then show ?thesis
  proof cases
    case 1
    from strips_apart [OF this assms(3)] show ?thesis
      by (simp add: boxes_overlap_def grid_paste_def)
  next
    case 2
    from strips_apart [OF this assms(3)] show ?thesis
      by (simp add: boxes_overlap_def grid_paste_def max.commute min.commute)
  qed
next
  case False
  then consider "i mod g < j mod g" | "j mod g < i mod g" by linarith
  then show ?thesis
  proof cases
    case 1
    from strips_apart [OF this assms(2)] show ?thesis
      by (simp add: boxes_overlap_def grid_paste_def)
  next
    case 2
    from strips_apart [OF this assms(2)] show ?thesis
      by (simp add: boxes_overlap_def grid_paste_def max.commute min.commute)
  qed
qed

lemma layout_geometry:
  assumes "layout_images dec imgs = Inr c"
  shows "list_all in_canvas c \<and> pairwise_apart c"
proof (cases imgs rule: image_list_cases)
  case 1
  with assms show ?thesis by (simp add: layout_empty)
next
  case (2 a)
  with assms show ?thesis
    by (auto simp: layout_one paste_fitted_def in_canvas_def A4_SIZE_def split: if_splits)
next
  case (3 a b)
  with assms show ?thesis
    by (auto simp: layout_two paste_fitted_def in_canvas_def boxes_overlap_def A4_SIZE_def
        split: if_splits sum.splits)
next
  case (4 a b c)
  with assms show ?thesis
    by (auto simp: layout_three paste_fitted_def in_canvas_def boxes_overlap_def A4_SIZE_def
        split: if_splits sum.splits)
next
  case 5
  let ?n = "length imgs"
  let ?g = "grid_size ?n"
  let ?cw = "2480 div ?g" and ?ch = "3508 div ?g"
  from 5 have "0 < ?n" by auto
  from grid_size_bounds [OF this]
  have g: "0 < ?g" and sq: "int ?n \<le> ?g * ?g" by simp_all
  from 5 assms have "paste_grid dec ?g ?cw ?ch 0 imgs [] = Inr c"
    by (simp add: layout_grid)
  from paste_grid_Inr [OF this]
  have c: "c = map (\<lambda>k. grid_paste ?g ?cw ?ch (int k) (imgs ! k)) [0..<?n]" by simp
  have cw: "0 \<le> ?cw" and ch: "0 \<le> ?ch" using g by (simp_all add: pos_imp_zdiv_nonneg_iff)
  have "list_all in_canvas c"
    unfolding c list_all_length
  proof (intro allI impI)
    fix k assume "k < length (map (\<lambda>k. grid_paste ?g ?cw ?ch (int k) (imgs ! k)) [0..<?n])"
    then have k: "k < ?n" by simp
    with sq have "int k < ?g * ?g" by linarith
    with g have "in_canvas (grid_paste ?g ?cw ?ch (int k) (imgs ! k))"
      by (intro grid_paste_in_canvas) simp_all
    with k show "in_canvas (map (\<lambda>k. grid_paste ?g ?cw ?ch (int k) (imgs ! k)) [0..<?n] ! k)"
      by simp
  qed
  moreover have "pairwise_apart c"
  proof (rule pairwise_apartI)
    fix i j assume ij: "i < j" "j < length c"
    then have "i < ?n" "j < ?n" by (simp_all add: c)
    moreover from ij have "int i \<noteq> int j" by simp
    from grid_pastes_apart [OF g cw ch this]
    have "\<not> boxes_overlap (grid_paste ?g ?cw ?ch (int i) (imgs ! i))
            (grid_paste ?g ?cw ?ch (int j) (imgs ! j))" .
    ultimately show "\<not> boxes_overlap (c ! i) (c ! j)" by (simp add: c)
  qed
  ultimately show ?thesis by simp
qed

lemma grid_index:
  fixes g :: int
  assumes "col < nat g"
  shows "int (r * nat g + col) mod g = int col" and "int (r * nat g + col) div g = int r"
proof -
  from assms have g: "0 < g" and c: "int col < g" by simp_all
  have e: "int (r * nat g + col) = int col + int r * g" using g by simp
  show "int (r * nat g + col) mod g = int col" unfolding e using c by simp
  show "int (r * nat g + col) div g = int r" unfolding e using c g by simp
qed

section \<open>Facts about one cycle\<close>

lemma create_dynamic_collage_Inr:
  assumes "create_dynamic_collage e st = Inr (fn, st')"
  obtains c where
    "save_ok e"
    "fn = ''collage_'' @ name_stamp e @ ''.jpg''"
    "if recent_images (current_time e) (uploaded_images st) = [] then c = []
     else layout_images (decodes e) (recent_images (current_time e) (uploaded_images st)) = Inr c"
    "st' = st\<lparr>saved := saved st @ [(os_path_join COLLAGE_FOLDER fn, c)],
              last_collage_time := current_time e,
              recent_collage := Some fn,
              emitted := emitted st @
                [New_collage fn
                   (if recent_images (current_time e) (uploaded_images st) = [] then []
                    else map (\<lambda>img. basename (path img)) (uploaded_images st))]\<rparr>"
  using assms
  by (auto simp: create_dynamic_collage_def save_and_announce_def collage_save_def Let_def
      split: if_splits sum.splits)

lemma create_dynamic_collage_returns:
  assumes "save_ok e"
    and "\<forall>img \<in> set (recent_images (current_time e) (uploaded_images st)). \<forall>sz. decodes e (path img) sz"
  shows "\<exists>fn st'. create_dynamic_collage e st = Inr (fn, st')"
proof -
  from layout_returns [OF assms(2)] obtain c
    where "layout_images (decodes e) (recent_images (current_time e) (uploaded_images st)) = Inr c"
    by blast
  with assms(1) show ?thesis
    by (simp add: create_dynamic_collage_def save_and_announce_def collage_save_def Let_def)
qed

lemma create_dynamic_collage_save_fails:
  assumes "\<not> save_ok e"
  shows "\<exists>err. create_dynamic_collage e st = Inl err"
  using assms
  by (auto simp: create_dynamic_collage_def save_and_announce_def collage_save_def Let_def
      split: sum.splits)

lemma grid_size_5: "grid_size 5 = 3"
  by (rule grid_size_unique) simp_all

lemma five_layout: "layout_images (\<lambda>p sz. True) five_images = Inr five_collage"
proof -
  have len: "length five_images = 5" by (simp add: five_images_def)
  then have "layout_images (\<lambda>p sz. True) five_images =
               paste_grid (\<lambda>p sz. True) 3 826 1169 0 five_images []"
    by (simp add: layout_grid grid_size_5)
  also have "\<dots> = Inr five_collage"
    by (simp add: five_images_def five_collage_def paste_fitted_def Let_def)
  finally show ?thesis .
qed

lemma five_run:
  "create_dynamic_collage good_env five_state =
     Inr (''collage_20240101_120000.jpg'', after_five)"
proof -
  have w: "recent_images 60000000 five_images = five_images"
    by (simp add: recent_images_def five_images_def timedelta_seconds_def COLLAGE_INTERVAL_def)
  have n: "five_images \<noteq> []" by (simp add: five_images_def)
  have b: "map (\<lambda>img. basename (path img)) five_images =
             [''a.png'', ''b.png'', ''c.png'', ''d.png'', ''e.png'']"
    by (simp add: five_images_def basename_def)
  show ?thesis
    by (simp add: create_dynamic_collage_def good_env_def five_state_def fresh_state_def after_five_def w n b
        five_layout save_and_announce_def collage_save_def os_path_join_def COLLAGE_FOLDER_def
        Let_def)
qed

lemma recent_three: "recent_images 60000000 three_images = three_images"
  by (simp add: recent_images_def three_images_def timedelta_seconds_def COLLAGE_INTERVAL_def)

lemma recent_five: "recent_images 60000000 five_images = five_images"
  by (simp add: recent_images_def five_images_def timedelta_seconds_def COLLAGE_INTERVAL_def)

lemma cycle_saves_window:
  assumes "create_dynamic_collage e st = Inr (fn, st')"
  shows "\<exists>c. saved st' = saved st @ [(os_path_join COLLAGE_FOLDER fn, c)] \<and>
             map source c = map path (recent_images (current_time e) (uploaded_images st)) \<and>
             uploaded_images st' = uploaded_images st"
proof -
  let ?w = "recent_images (current_time e) (uploaded_images st)"
  from assms obtain c where
    c: "if ?w = [] then c = [] else layout_images (decodes e) ?w = Inr c"
    and st': "st' = st\<lparr>saved := saved st @ [(os_path_join COLLAGE_FOLDER fn, c)],
              last_collage_time := current_time e,
              recent_collage := Some fn,
              emitted := emitted st @
                [New_collage fn
                   (if ?w = [] then [] else map (\<lambda>img. basename (path img)) (uploaded_images st))]\<rparr>"
    by (rule create_dynamic_collage_Inr)
  from c have "layout_images (decodes e) ?w = Inr c"
    by (auto simp: layout_empty split: if_splits)
  from layout_sources [OF this] st' show ?thesis by simp
qed

lemma window_decode_failure:
  assumes "img \<in> set imgs"
    and "\<forall>sz. \<not> dec (path img) sz"
    and "\<forall>other \<in> set imgs. path other \<noteq> path img \<longrightarrow> (\<forall>sz. dec (path other) sz)"
  shows "layout_images dec imgs = Inl (Decode_failed (path img))"
proof (cases "layout_images dec imgs")
  case (Inl e)
  from layout_Inl [OF this] obtain x sz
    where x: "x \<in> set imgs" "\<not> dec (path x) sz" "e = Decode_failed (path x)" by blast
  from x(1,2) assms(3) have "path x = path img" by blast
  with x(3) Inl show ?thesis by simp
next
  case (Inr c)
  from layout_Inr_decodes [OF this] assms(1,2) show ?thesis by blast
qed

lemma upload_file_accepts:
  assumes "allowed_file file_name" and "file_save_ok u"
  shows "upload_file u (Some file_name) st =
           (Json_ok ''File uploaded successfully'' (uuid4 u @ splitext_ext file_name) 200,
            st\<lparr>uploaded_images := uploaded_images st @
                  [\<lparr>path = os_path_join UPLOAD_FOLDER (uuid4 u @ splitext_ext file_name),
                    timestamp = upload_time u\<rparr>],
               emitted := emitted st @
                  [New_upload (uuid4 u @ splitext_ext file_name)
                     (map (\<lambda>img. basename (path img))
                        (uploaded_images st @
                           [\<lparr>path = os_path_join UPLOAD_FOLDER (uuid4 u @ splitext_ext file_name),
                             timestamp = upload_time u\<rparr>]))]\<rparr>)"
proof -
  from assms(1) have "file_name \<noteq> []" by (auto simp: allowed_file_def)
  with assms show ?thesis by (simp add: upload_file_def Let_def)
qed

lemma old_image_outside_window:
  assumes "timestamp img < cleanup"
    and "cleanup + timedelta_seconds COLLAGE_INTERVAL \<le> now"
  shows "img \<notin> set (recent_images now imgs)"
  using assms by (simp add: recent_images_def)

lemma remaining_time_whole_seconds:
  "remaining_time now last_time =
     max 0 ((timedelta_seconds COLLAGE_INTERVAL - (now - last_time)) div 1000000)"
proof -
  let ?d = "now - last_time"
  have a: "(60 :: rat) - of_int ?d / 1000000 = of_int (60000000 - ?d) / of_int 1000000"
    by (simp add: field_simps)
  have b: "\<lfloor>(60 :: rat) - of_int ?d / 1000000\<rfloor> = (60000000 - ?d) div 1000000"
    unfolding a by (rule floor_divide_of_int_eq)
  show ?thesis
  proof (cases "?d \<le> 60000000")
    case True
    then have "(0::rat) \<le> 60 - of_int ?d / 1000000"
      by (simp add: field_simps)
    with True b show ?thesis
      by (simp add: remaining_time_def py_int_def total_seconds_def COLLAGE_INTERVAL_def max_def
          timedelta_seconds_def pos_imp_zdiv_nonneg_iff)
  next
    case False
    then have "60 - of_int ?d / 1000000 < (0::rat)"
      by (simp add: field_simps)
    moreover from False have "(60000000 - ?d) div 1000000 < 0"
      by (simp add: div_neg_pos_less0)
    ultimately show ?thesis
      by (simp add: remaining_time_def py_int_def total_seconds_def COLLAGE_INTERVAL_def max_def
          timedelta_seconds_def)
  qed
qed

lemma basename_join:
  assumes "CHR ''/'' \<notin> set name"
  shows "basename (os_path_join UPLOAD_FOLDER name) = name"
proof -
  have "name = [] \<or> hd name \<noteq> CHR ''/''" using assms by (cases name) auto
  then have "os_path_join UPLOAD_FOLDER name = ''uploads/'' @ name"
    by (auto simp: os_path_join_def UPLOAD_FOLDER_def)
  moreover have "takeWhile (\<lambda>c. c \<noteq> CHR ''/'') (rev name @ ''/sdaolpu'') =
      rev name @ takeWhile (\<lambda>c. c \<noteq> CHR ''/'') ''/sdaolpu''"
    using assms by (intro takeWhile_append2) auto
  ultimately show ?thesis by (simp add: basename_def)
qed

lemma splitext_ext_no_slash: "CHR ''/'' \<notin> set (splitext_ext p)"
proof -
  have "CHR ''/'' \<notin> set (basename p)"
    using set_takeWhileD [of "CHR ''/''" "\<lambda>c. c \<noteq> CHR ''/''" "rev p"]
    by (auto simp: basename_def)
  moreover have "set (takeWhile (\<lambda>c. c \<noteq> CHR ''.'') (rev (basename p))) \<subseteq> set (basename p)"
    using set_takeWhileD [of _ "\<lambda>c. c \<noteq> CHR ''.''" "rev (basename p)"] by auto
  ultimately show ?thesis by (auto simp: splitext_ext_def Let_def)
qed

lemma uploaded_image_name:
  assumes "CHR ''/'' \<notin> set (uuid4 u)"
  shows "basename (os_path_join UPLOAD_FOLDER (uuid4 u @ splitext_ext file_name)) =
           uuid4 u @ splitext_ext file_name"
  using assms splitext_ext_no_slash [of file_name] by (intro basename_join) simp

lemma allowed_file_iff:
  "allowed_file name \<longleftrightarrow>
     (\<exists>stem ext. name = stem @ CHR ''.'' # ext \<and> CHR ''.'' \<notin> set ext \<and>
                 lower ext \<in> ALLOWED_EXTENSIONS)"
proof
  assume a: "allowed_file name"
  let ?P = "\<lambda>c. c \<noteq> CHR ''.''"
  let ?ext = "rev (takeWhile ?P (rev name))"
  let ?stem = "rev (tl (dropWhile ?P (rev name)))"
  from a have dot: "CHR ''.'' \<in> set name" by (simp add: allowed_file_def)
  with a have low: "lower ?ext \<in> ALLOWED_EXTENSIONS" by (simp add: allowed_file_def rsplit1_def)
  from dot have ne: "dropWhile ?P (rev name) \<noteq> []" by (simp add: dropWhile_eq_Nil_conv)
  then have "hd (dropWhile ?P (rev name)) = CHR ''.''" using hd_dropWhile [of ?P "rev name"] by simp
  with ne have d: "dropWhile ?P (rev name) = CHR ''.'' # tl (dropWhile ?P (rev name))"
    by (metis list.collapse)
  have "rev name = takeWhile ?P (rev name) @ dropWhile ?P (rev name)" by simp
  then have "rev name = takeWhile ?P (rev name) @ CHR ''.'' # tl (dropWhile ?P (rev name))"
    using d by simp
  then have "rev (rev name) = rev (takeWhile ?P (rev name) @ CHR ''.'' # tl (dropWhile ?P (rev name)))"
    by (rule arg_cong)
  then have "name = ?stem @ CHR ''.'' # ?ext" by simp
  moreover have "CHR ''.'' \<notin> set ?ext" using set_takeWhileD [of "CHR ''.''" ?P "rev name"] by auto
  ultimately show "\<exists>stem ext. name = stem @ CHR ''.'' # ext \<and> CHR ''.'' \<notin> set ext \<and>
                 lower ext \<in> ALLOWED_EXTENSIONS"
    using low by blast
next
  assume "\<exists>stem ext. name = stem @ CHR ''.'' # ext \<and> CHR ''.'' \<notin> set ext \<and>
                 lower ext \<in> ALLOWED_EXTENSIONS"
  then obtain stem ext where n: "name = stem @ CHR ''.'' # ext" and e: "CHR ''.'' \<notin> set ext"
    and low: "lower ext \<in> ALLOWED_EXTENSIONS" by blast
  have "takeWhile (\<lambda>c. c \<noteq> CHR ''.'') (rev ext @ CHR ''.'' # rev stem) =
      rev ext @ takeWhile (\<lambda>c. c \<noteq> CHR ''.'') (CHR ''.'' # rev stem)"
    using e by (intro takeWhile_append2) auto
  then have "rev (takeWhile (\<lambda>c. c \<noteq> CHR ''.'') (rev name)) = ext" by (simp add: n)
  with low show "allowed_file name" by (simp add: allowed_file_def rsplit1_def n)
qed

lemma not_allowed_txt: "\<not> allowed_file ''notes.txt''"
  by code_simp

lemma allowed_upper: "allowed_file ''Photo.PNG''"
  by code_simp

lemma not_allowed_no_dot: "\<not> allowed_file ''png''"
  by (simp add: allowed_file_def)

lemma allowed_cat: "allowed_file ''cat.png''"
  by code_simp

lemma same_now_run: "collage_scheduler [same_now_tick] five_state = (None, after_same_now)"
  by code_simp

section \<open>The window and the cleanup at one time\<close>

text \<open>
  C6: for every store and every time \<open>now\<close>, a turn of the scheduler that reads its
  window at \<open>now\<close> and cleans up at the same \<open>now\<close> leaves in the store exactly the
  entries the window returned, in their insertion order: they are the store of the state
  the turn ends in, and the images of the collage it saved.
\<close>

theorem turn_leaves_window:
  assumes "collage_scheduler [t] st = (None, st')"
    and "cleanup_time t = current_time (cycle_env t)"
  shows "uploaded_images st' = recent_images (current_time (cycle_env t)) (uploaded_images st) \<and>
         (\<exists>fn c. saved st' = saved st @ [(os_path_join COLLAGE_FOLDER fn, c)] \<and>
                 map source c = map path (uploaded_images st'))"
proof -
  from assms(1) obtain fn st1 where r: "create_dynamic_collage (cycle_env t) st = Inr (fn, st1)"
    and st': "st' = st1\<lparr>uploaded_images := clean_up (cleanup_time t) (uploaded_images st1)\<rparr>"
    by (cases "create_dynamic_collage (cycle_env t) st") auto
  from cycle_saves_window [OF r] obtain c where
    s: "saved st1 = saved st @ [(os_path_join COLLAGE_FOLDER fn, c)]"
    and m: "map source c = map path (recent_images (current_time (cycle_env t)) (uploaded_images st))"
    and u: "uploaded_images st1 = uploaded_images st"
    by blast
  have w: "uploaded_images st' = recent_images (current_time (cycle_env t)) (uploaded_images st)"
    by (simp add: st' u assms(2) clean_up_def recent_images_def)
  from s st' have "saved st' = saved st @ [(os_path_join COLLAGE_FOLDER fn, c)]" by simp
  moreover from m w have "map source c = map path (uploaded_images st')" by simp
  ultimately show ?thesis using w by blast
qed

theorem turn_leaves_window_witness:
  "collage_scheduler [same_now_tick] five_state = (None, after_same_now) \<and>
   cleanup_time same_now_tick = current_time (cycle_env same_now_tick) \<and>
   recent_images (current_time (cycle_env same_now_tick)) (uploaded_images five_state) = last_two_images \<and>
   uploaded_images after_same_now = last_two_images"
proof -
  have h: "cleanup_time same_now_tick = current_time (cycle_env same_now_tick)"
    by (simp add: same_now_tick_def)
  have u: "uploaded_images after_same_now = last_two_images" by (simp add: after_same_now_def)
  from turn_leaves_window [OF same_now_run h] u same_now_run h show ?thesis by simp
qed

section \<open>Placements stay inside the canvas and apart\<close>

text \<open>
  C10: whatever the store, in every layout branch (no image, one, two, three, or the
  grid of four and more) the collage a cycle saves places the images of the window, one
  paste each and in their order, in boxes that lie inside the 2480 by 3508 canvas and of
  which no two share a pixel.
\<close>

theorem placements_inside_and_apart:
  assumes "create_dynamic_collage e st = Inr (fn, st')"
  shows "\<exists>c. saved st' = saved st @ [(os_path_join COLLAGE_FOLDER fn, c)] \<and>
             map source c = map path (recent_images (current_time e) (uploaded_images st)) \<and>
             (\<forall>p \<in> set c. in_canvas p) \<and>
             (\<forall>i j. i < length c \<and> j < length c \<and> i \<noteq> j \<longrightarrow> pixels (c ! i) \<inter> pixels (c ! j) = {})"
proof -
  let ?w = "recent_images (current_time e) (uploaded_images st)"
  from assms obtain c where
    c: "if ?w = [] then c = [] else layout_images (decodes e) ?w = Inr c"
    and st': "st' = st\<lparr>saved := saved st @ [(os_path_join COLLAGE_FOLDER fn, c)],
              last_collage_time := current_time e,
              recent_collage := Some fn,
              emitted := emitted st @
                [New_collage fn
                   (if ?w = [] then [] else map (\<lambda>img. basename (path img)) (uploaded_images st))]\<rparr>"
    by (rule create_dynamic_collage_Inr)
  from c have lay: "layout_images (decodes e) ?w = Inr c"
    by (auto simp: layout_empty split: if_splits)
  from layout_geometry [OF lay] have inside: "list_all in_canvas c" and apart: "pairwise_apart c"
    by simp_all
  have "pixels (c ! i) \<inter> pixels (c ! j) = {}" if "i < length c" "j < length c" "i \<noteq> j" for i j
  proof -
    from that(3) consider "i < j" | "j < i" by linarith
    then have "\<not> boxes_overlap (c ! i) (c ! j)"
    proof cases
      case 1
      from pairwise_apart_nth [OF apart this that(2)] show ?thesis .
    next
      case 2
      from pairwise_apart_nth [OF apart this that(1)] show ?thesis
        by (simp add: boxes_overlap_sym)
    qed
    then show ?thesis by (simp add: boxes_overlap_pixels)
  qed
  moreover from inside have "\<forall>p \<in> set c. in_canvas p" by (simp add: list_all_iff)
  moreover from st' have "saved st' = saved st @ [(os_path_join COLLAGE_FOLDER fn, c)]" by simp
  moreover note layout_sources [OF lay]
  ultimately show ?thesis by blast
qed

theorem placements_inside_and_apart_witness:
  "create_dynamic_collage good_env five_state = Inr (''collage_20240101_120000.jpg'', after_five) \<and>
   map source five_collage = map path five_images \<and>
   list_all in_canvas five_collage \<and>
   pixels (five_collage ! 0) \<inter> pixels (five_collage ! 1) = {} \<and>
   pixels (five_collage ! 1) \<inter> pixels (five_collage ! 4) = {}"
proof -
  from placements_inside_and_apart [OF five_run] obtain c where
    s: "saved after_five =
          saved five_state @ [(os_path_join COLLAGE_FOLDER ''collage_20240101_120000.jpg'', c)]"
    and src: "map source c = map path (recent_images (current_time good_env) (uploaded_images five_state))"
    and inside: "\<forall>p \<in> set c. in_canvas p"
    and apart: "\<And>i j. i < length c \<and> j < length c \<and> i \<noteq> j \<Longrightarrow> pixels (c ! i) \<inter> pixels (c ! j) = {}"
    by blast
  from s have c: "c = five_collage"
    by (simp add: after_five_def five_state_def fresh_state_def)
  have len: "length five_collage = 5" by (simp add: five_collage_def)
  from src have "map source five_collage = map path five_images"
    by (simp add: c good_env_def five_state_def fresh_state_def recent_five)
  moreover from inside have "list_all in_canvas five_collage" by (simp add: c list_all_iff)
  moreover from apart [of 0 1] have "pixels (five_collage ! 0) \<inter> pixels (five_collage ! 1) = {}"
    by (simp add: c len)
  moreover from apart [of 1 4] have "pixels (five_collage ! 1) \<inter> pixels (five_collage ! 4) = {}"
    by (simp add: c len)
  ultimately show ?thesis using five_run by simp
qed

section \<open>The grid of four and more images\<close>

text \<open>
  C5: for every list of at least four images (which all decode at the cell size), with
  \<open>g\<close> the ceiling of the square root of their number (the integer with
  \<open>(g - 1)\<^sup>2 < count \<le> g\<^sup>2\<close>, so that no image is left out), the cells are
  \<open>W div g\<close> wide and \<open>H div g\<close> high, fewer than \<open>g\<close> pixels stay unused at the
  right and at the bottom, and the layout returns one paste per image, image number
  \<open>r * g + col\<close> in column \<open>col\<close> of row \<open>r\<close>: row by row from the upper left corner, in
  the order of arrival. For five images \<open>g = 3\<close>, the cells are 826 by 1169, and the first
  five cells are filled.
\<close>

theorem grid_layout_row_major:
  assumes "4 \<le> length imgs"
    and "g = grid_size (length imgs)"
    and "cw = fst A4_SIZE div g" and "ch = snd A4_SIZE div g"
    and "\<forall>img \<in> set imgs. dec (path img) (cw, ch)"
  shows "(g - 1) * (g - 1) < int (length imgs) \<and> int (length imgs) \<le> g * g \<and>
         g * cw \<le> fst A4_SIZE \<and> fst A4_SIZE < g * cw + g \<and>
         g * ch \<le> snd A4_SIZE \<and> snd A4_SIZE < g * ch + g \<and>
         (\<exists>c. layout_images dec imgs = Inr c \<and> length c = length imgs \<and>
            (\<forall>r col. col < nat g \<and> r * nat g + col < length imgs \<longrightarrow>
               c ! (r * nat g + col) =
                 \<lparr>source = path (imgs ! (r * nat g + col)),
                  box_left = int col * cw, box_top = int r * ch,
                  box_width = cw, box_height = ch\<rparr>))"
proof -
  let ?n = "length imgs"
  from assms(1) have "0 < ?n" by auto
  from grid_size_bounds [OF this] assms(2)
  have g: "1 \<le> g" and lo: "(g - 1) * (g - 1) < int ?n" and hi: "int ?n \<le> g * g" by simp_all
  have pad: "g * (a div g) \<le> a \<and> a < g * (a div g) + g" for a :: int
  proof -
    have "g * (a div g) + a mod g = a" by simp
    moreover have "0 \<le> a mod g" "a mod g < g" using g by simp_all
    ultimately show ?thesis by linarith
  qed
  let ?c = "map (\<lambda>k. grid_paste g cw ch (int k) (imgs ! k)) [0..<?n]"
  have "layout_images dec imgs = paste_grid dec g cw ch 0 imgs []"
    using assms(1-4) by (simp add: layout_grid A4_SIZE_def)
  also have "\<dots> = Inr ([] @ map (\<lambda>k. grid_paste g cw ch (0 + int k) (imgs ! k)) [0..<?n])"
    using assms(5) by (rule paste_grid_returns)
  finally have lay: "layout_images dec imgs = Inr ?c" by simp
  have cell: "?c ! (r * nat g + col) =
                 \<lparr>source = path (imgs ! (r * nat g + col)),
                  box_left = int col * cw, box_top = int r * ch,
                  box_width = cw, box_height = ch\<rparr>"
    if "col < nat g" "r * nat g + col < ?n" for r col
    using that grid_index [OF that(1), of r] by (simp add: grid_paste_def)
  from lay cell have "\<exists>c. layout_images dec imgs = Inr c \<and> length c = length imgs \<and>
            (\<forall>r col. col < nat g \<and> r * nat g + col < length imgs \<longrightarrow>
               c ! (r * nat g + col) =
                 \<lparr>source = path (imgs ! (r * nat g + col)),
                  box_left = int col * cw, box_top = int r * ch,
                  box_width = cw, box_height = ch\<rparr>)"
    by (intro exI [of _ ?c]) simp
  with lo hi pad [of "fst A4_SIZE"] pad [of "snd A4_SIZE"] assms(3,4) show ?thesis by simp
qed

theorem grid_layout_row_major_witness:
  "4 \<le> length five_images \<and> grid_size (length five_images) = 3 \<and>
   fst A4_SIZE div 3 = 826 \<and> snd A4_SIZE div 3 = 1169 \<and>
   (\<exists>c. layout_images (\<lambda>p sz. True) five_images = Inr c \<and> length c = 5 \<and>
      c ! 0 = \<lparr>source = ''uploads/a.png'', box_left = 0, box_top = 0, box_width = 826, box_height = 1169\<rparr> \<and>
      c ! 1 = \<lparr>source = ''uploads/b.png'', box_left = 826, box_top = 0, box_width = 826, box_height = 1169\<rparr> \<and>
      c ! 2 = \<lparr>source = ''uploads/c.png'', box_left = 1652, box_top = 0, box_width = 826, box_height = 1169\<rparr> \<and>
      c ! 3 = \<lparr>source = ''uploads/d.png'', box_left = 0, box_top = 1169, box_width = 826, box_height = 1169\<rparr> \<and>
      c ! 4 = \<lparr>source = ''uploads/e.png'', box_left = 826, box_top = 1169, box_width = 826, box_height = 1169\<rparr>)"
proof -
  have len: "length five_images = 5" by (simp add: five_images_def)
  have h1: "4 \<le> length five_images" by (simp add: len)
  have h2: "3 = grid_size (length five_images)" by (simp add: len grid_size_5)
  have h3: "826 = fst A4_SIZE div 3" and h4: "1169 = snd A4_SIZE div 3"
    by (simp_all add: A4_SIZE_def)
  have h5: "\<forall>img \<in> set five_images. (\<lambda>p sz. True) (path img) (826, 1169)" by simp
  from grid_layout_row_major [OF h1 h2 h3 h4 h5] obtain c where
    c: "layout_images (\<lambda>p sz. True) five_images = Inr c" "length c = length five_images"
    and cell: "\<And>r col. col < nat 3 \<Longrightarrow> r * nat 3 + col < length five_images \<Longrightarrow>
               c ! (r * nat 3 + col) =
                 \<lparr>source = path (five_images ! (r * nat 3 + col)),
                  box_left = int col * 826, box_top = int r * 1169,
                  box_width = 826, box_height = 1169\<rparr>"
    by blast
  have c0: "c ! 0 = \<lparr>source = ''uploads/a.png'', box_left = 0, box_top = 0, box_width = 826, box_height = 1169\<rparr>"
    using cell [of 0 0] by (simp add: five_images_def)
  have c1: "c ! 1 = \<lparr>source = ''uploads/b.png'', box_left = 826, box_top = 0, box_width = 826, box_height = 1169\<rparr>"
    using cell [of 1 0] by (simp add: five_images_def)
  have c2: "c ! 2 = \<lparr>source = ''uploads/c.png'', box_left = 1652, box_top = 0, box_width = 826, box_height = 1169\<rparr>"
    using cell [of 2 0] by (simp add: five_images_def eval_nat_numeral)
  have c3: "c ! 3 = \<lparr>source = ''uploads/d.png'', box_left = 0, box_top = 1169, box_width = 826, box_height = 1169\<rparr>"
    using cell [of 0 1] by (simp add: five_images_def eval_nat_numeral)
  have c4: "c ! 4 = \<lparr>source = ''uploads/e.png'', box_left = 826, box_top = 1169, box_width = 826, box_height = 1169\<rparr>"
    using cell [of 1 1] by (simp add: five_images_def eval_nat_numeral)
  from c len have "layout_images (\<lambda>p sz. True) five_images = Inr c \<and> length c = 5" by simp
  with c0 c1 c2 c3 c4 h1 h2 h3 h4 show ?thesis by (intro conjI exI [of _ c]) simp_all
qed

section \<open>The names in the collage event\<close>

text \<open>
  C3 (as the code has it): the event of a cycle carries the file name of the new collage,
  which is also the most recent collage and the file saved; when the window is not empty
  it carries the names of all images of the store, in or out of the window; when the
  window is empty it carries the empty list, whatever the store holds.
\<close>

theorem collage_event_names:
  assumes "create_dynamic_collage e st = Inr (fn, st')"
  shows "emitted st' = emitted st @
           [New_collage fn
              (if recent_images (current_time e) (uploaded_images st) = [] then []
               else map (\<lambda>img. basename (path img)) (uploaded_images st))] \<and>
         recent_collage st' = Some fn \<and>
         (\<exists>c. saved st' = saved st @ [(os_path_join COLLAGE_FOLDER fn, c)])"
  using assms by (rule create_dynamic_collage_Inr) simp

theorem collage_event_names_witness:
  "create_dynamic_collage good_env five_state = Inr (''collage_20240101_120000.jpg'', after_five) \<and>
   map (\<lambda>img. basename (path img)) (uploaded_images five_state) =
     [''a.png'', ''b.png'', ''c.png'', ''d.png'', ''e.png''] \<and>
   emitted after_five = emitted five_state @
     [New_collage ''collage_20240101_120000.jpg'' [''a.png'', ''b.png'', ''c.png'', ''d.png'', ''e.png'']]"
proof -
  have n: "recent_images (current_time good_env) (uploaded_images five_state) \<noteq> []"
    by (simp add: good_env_def five_state_def fresh_state_def recent_five) (simp add: five_images_def)
  have b: "map (\<lambda>img. basename (path img)) (uploaded_images five_state) =
     [''a.png'', ''b.png'', ''c.png'', ''d.png'', ''e.png'']"
    by (simp add: five_state_def fresh_state_def five_images_def basename_def)
  from collage_event_names [OF five_run] n b five_run show ?thesis by simp
qed

text \<open>
  C3 as stated fails on an empty window over a store that is not empty: the store holds
  \<open>a.png\<close>, received 61 seconds before the cycle and not yet cleaned up, and the event
  carries no name.
\<close>

theorem blank_collage_event_names_nothing:
  "create_dynamic_collage late_env stale_state =
     Inr (''collage_20240101_120002.jpg'',
          \<lparr>uploaded_images = [\<lparr>path = ''uploads/a.png'', timestamp = 1000000\<rparr>],
           last_collage_time = 62000000,
           recent_collage = Some ''collage_20240101_120002.jpg'',
           saved = [(''collages/collage_20240101_120002.jpg'', [])],
           emitted = [New_collage ''collage_20240101_120002.jpg'' []]\<rparr>) \<and>
   map (\<lambda>img. basename (path img)) (uploaded_images stale_state) = [''a.png'']"
  by (simp add: create_dynamic_collage_def late_env_def good_env_def stale_state_def fresh_state_def
      recent_images_def timedelta_seconds_def COLLAGE_INTERVAL_def save_and_announce_def
      collage_save_def os_path_join_def COLLAGE_FOLDER_def basename_def Let_def)

section \<open>An image that does not decode\<close>

text \<open>
  C1 (as the code has it): when exactly one image of the window does not decode, at any
  size, the exception of its decode leaves \<open>create_dynamic_collage\<close> and then the loop of
  the scheduler: no collage is saved, nothing of the state changes, no event is emitted,
  the store is not cleaned, and no later turn runs.
\<close>

theorem corrupt_image_ends_scheduler:
  assumes "img \<in> set (recent_images (current_time (cycle_env t)) (uploaded_images st))"
    and "\<forall>sz. \<not> decodes (cycle_env t) (path img) sz"
    and "\<forall>other \<in> set (recent_images (current_time (cycle_env t)) (uploaded_images st)).
           path other \<noteq> path img \<longrightarrow> (\<forall>sz. decodes (cycle_env t) (path other) sz)"
  shows "create_dynamic_collage (cycle_env t) st = Inl (Decode_failed (path img)) \<and>
         collage_scheduler (t # ts) st = (Some (Decode_failed (path img)), st)"
proof -
  from assms(1) have "recent_images (current_time (cycle_env t)) (uploaded_images st) \<noteq> []"
    by auto
  with window_decode_failure [OF assms]
  have "create_dynamic_collage (cycle_env t) st = Inl (Decode_failed (path img))"
    by (simp add: create_dynamic_collage_def)
  then show ?thesis by simp
qed

theorem corrupt_image_ends_scheduler_witness:
  "create_dynamic_collage corrupt_env five_state = Inl (Decode_failed ''uploads/b.png'') \<and>
   collage_scheduler [corrupt_tick, next_tick] five_state =
     (Some (Decode_failed ''uploads/b.png''), five_state)"
proof -
  let ?b = "\<lparr>path = ''uploads/b.png'', timestamp = 2000000\<rparr>"
  have env: "cycle_env corrupt_tick = corrupt_env" by (simp add: corrupt_tick_def)
  have w: "recent_images (current_time (cycle_env corrupt_tick)) (uploaded_images five_state) = five_images"
    by (simp add: env corrupt_env_def good_env_def five_state_def fresh_state_def recent_five)
  have h1: "?b \<in> set (recent_images (current_time (cycle_env corrupt_tick)) (uploaded_images five_state))"
    unfolding w by (simp add: five_images_def)
  have h2: "\<forall>sz. \<not> decodes (cycle_env corrupt_tick) (path ?b) sz"
    by (simp add: env corrupt_env_def)
  have h3: "\<forall>other \<in> set (recent_images (current_time (cycle_env corrupt_tick)) (uploaded_images five_state)).
           path other \<noteq> path ?b \<longrightarrow> (\<forall>sz. decodes (cycle_env corrupt_tick) (path other) sz)"
    by (simp add: env corrupt_env_def)
  from corrupt_image_ends_scheduler [OF h1 h2 h3, of "[next_tick]"] show ?thesis by (simp add: env)
qed

text \<open>
  C1 as stated fails: of three images in the window the second does not decode, and the
  cycle saves no collage.
\<close>

theorem corrupt_image_no_collage:
  "create_dynamic_collage corrupt_env three_state = Inl (Decode_failed ''uploads/b.png'') \<and>
   collage_scheduler [corrupt_tick] three_state = (Some (Decode_failed ''uploads/b.png''), three_state) \<and>
   saved three_state = [] \<and> emitted three_state = []"
proof -
  have "layout_images (\<lambda>p sz. p \<noteq> ''uploads/b.png'') three_images = Inl (Decode_failed ''uploads/b.png'')"
    by (simp add: three_images_def layout_three paste_fitted_def)
  then have "create_dynamic_collage corrupt_env three_state = Inl (Decode_failed ''uploads/b.png'')"
    by (simp add: create_dynamic_collage_def corrupt_env_def good_env_def three_state_def
        fresh_state_def recent_three) (simp add: three_images_def)
  then show ?thesis
    by (simp add: corrupt_tick_def) (simp add: three_state_def fresh_state_def)
qed

section \<open>A collage that cannot be saved\<close>

text \<open>
  C2 (as the code has it): when \<open>collage.save\<close> fails, the cycle ends by its exception
  with the state as it was: no cleanup, no new most recent collage, no new last collage
  time, no event; these updates happen only after a save that returned. The exception is
  caught nowhere, so the loop of the scheduler ends with it and no later turn runs. When
  every image of the window decodes, the exception is that of the save.
\<close>

theorem save_failure_ends_scheduler:
  assumes "\<not> save_ok (cycle_env t)"
  shows "(\<exists>err. create_dynamic_collage (cycle_env t) st = Inl err \<and>
               collage_scheduler (t # ts) st = (Some err, st)) \<and>
         ((\<forall>img \<in> set (recent_images (current_time (cycle_env t)) (uploaded_images st)).
             \<forall>sz. decodes (cycle_env t) (path img) sz) \<longrightarrow>
          collage_scheduler (t # ts) st = (Some Save_failed, st))"
proof -
  from create_dynamic_collage_save_fails [OF assms] obtain err
    where err: "create_dynamic_collage (cycle_env t) st = Inl err" by blast
  then have a: "collage_scheduler (t # ts) st = (Some err, st)" by simp
  have "err = Save_failed"
    if "\<forall>img \<in> set (recent_images (current_time (cycle_env t)) (uploaded_images st)).
             \<forall>sz. decodes (cycle_env t) (path img) sz"
  proof -
    from layout_returns [OF that] obtain c where
      "layout_images (decodes (cycle_env t))
         (recent_images (current_time (cycle_env t)) (uploaded_images st)) = Inr c" by blast
    with assms err show ?thesis
      by (simp add: create_dynamic_collage_def save_and_announce_def collage_save_def Let_def
          split: if_splits)
  qed
  with err a show ?thesis by blast
qed

theorem save_failure_ends_scheduler_witness:
  "\<not> save_ok (cycle_env full_disk_tick) \<and>
   collage_scheduler [full_disk_tick, next_tick] five_state = (Some Save_failed, five_state)"
proof -
  have env: "cycle_env full_disk_tick = full_disk_env" by (simp add: full_disk_tick_def)
  have h: "\<not> save_ok (cycle_env full_disk_tick)" by (simp add: env full_disk_env_def)
  have d: "\<forall>img \<in> set (recent_images (current_time (cycle_env full_disk_tick)) (uploaded_images five_state)).
             \<forall>sz. decodes (cycle_env full_disk_tick) (path img) sz"
    by (simp add: env full_disk_env_def good_env_def)
  from save_failure_ends_scheduler [OF h, of five_state "[next_tick]"] d h show ?thesis by blast
qed

text \<open>
  C2 as stated fails in its last part: after a turn whose save failed, the next turn,
  which alone would save a collage, does not run.
\<close>

theorem no_turn_after_save_failure:
  "collage_scheduler [full_disk_tick, next_tick] three_state = (Some Save_failed, three_state) \<and>
   collage_scheduler [next_tick] three_state =
     (None, \<lparr>uploaded_images = [], last_collage_time = 121000000,
             recent_collage = Some ''collage_20240101_120101.jpg'',
             saved = [(''collages/collage_20240101_120101.jpg'', [])],
             emitted = [New_collage ''collage_20240101_120101.jpg'' []]\<rparr>)"
proof -
  have l: "layout_images (\<lambda>p sz. True) three_images =
      Inr [\<lparr>source = ''uploads/a.png'', box_left = 0, box_top = 0, box_width = 1240, box_height = 2338\<rparr>,
           \<lparr>source = ''uploads/b.png'', box_left = 1240, box_top = 0, box_width = 1240, box_height = 2338\<rparr>,
           \<lparr>source = ''uploads/c.png'', box_left = 0, box_top = 2338, box_width = 2480, box_height = 1170\<rparr>]"
    by (simp add: three_images_def layout_three paste_fitted_def)
  have "create_dynamic_collage full_disk_env three_state = Inl Save_failed"
    by (simp add: create_dynamic_collage_def full_disk_env_def good_env_def three_state_def
        fresh_state_def recent_three l save_and_announce_def collage_save_def Let_def)
  then have a: "collage_scheduler [full_disk_tick, next_tick] three_state = (Some Save_failed, three_state)"
    by (simp add: full_disk_tick_def)
  have w: "recent_images 121000000 three_images = []"
    by (simp add: recent_images_def three_images_def timedelta_seconds_def COLLAGE_INTERVAL_def)
  have c: "clean_up 121500000 three_images = []"
    by (simp add: clean_up_def three_images_def timedelta_seconds_def COLLAGE_INTERVAL_def)
  have b: "collage_scheduler [next_tick] three_state =
     (None, \<lparr>uploaded_images = [], last_collage_time = 121000000,
             recent_collage = Some ''collage_20240101_120101.jpg'',
             saved = [(''collages/collage_20240101_120101.jpg'', [])],
             emitted = [New_collage ''collage_20240101_120101.jpg'' []]\<rparr>)"
    by (simp add: next_tick_def next_env_def create_dynamic_collage_def good_env_def three_state_def
        fresh_state_def w c save_and_announce_def collage_save_def os_path_join_def
        COLLAGE_FOLDER_def Let_def)
  from a b show ?thesis by simp
qed

section \<open>The clock of the scheduler\<close>

text \<open>
  C4 (as the code has it): the scheduler sleeps the interval before every turn, so a turn
  starts one interval (and what the sleep overslept) after the end of the turn before it,
  that is one interval plus the duration of that turn after its start, whatever that
  duration; the wait is never negative and no turn is made up for.
\<close>

theorem turn_starts_interval_after_end:
  assumes "Suc k < length turns"
  shows "cycle_starts clock turns ! Suc k =
           (cycle_starts clock turns ! k + snd (turns ! k)) + COLLAGE_INTERVAL + fst (turns ! Suc k)"
  using assms
proof (induction turns arbitrary: clock k)
  case Nil
  then show ?case by simp
next
  case (Cons t ts)
  obtain o1 d1 where t: "t = (o1, d1)" by (cases t)
  show ?case
  proof (cases k)
    case 0
    with Cons.prems obtain o2 d2 ts' where "ts = (o2, d2) # ts'" by (cases ts) auto
    with 0 t show ?thesis by (simp add: Let_def)
  next
    case (Suc m)
    with Cons.prems have "Suc m < length ts" by simp
    from Cons.IH [OF this] Suc t show ?thesis by (simp add: Let_def)
  qed
qed

theorem turn_starts_interval_after_end_witness:
  "Suc 0 < length [(0, 5), (0, 5 :: int)] \<and>
   cycle_starts 0 [(0, 5), (0, 5)] ! Suc 0 =
     (cycle_starts 0 [(0, 5), (0, 5)] ! 0 + 5) + COLLAGE_INTERVAL + 0 \<and>
   cycle_starts 0 [(0, 5), (0, 5)] ! Suc 0 = 125"
proof -
  have h: "Suc 0 < length [(0, 5), (0, 5 :: int)]" by simp
  from turn_starts_interval_after_end [OF h, of 0] h show ?thesis
    by (simp add: Let_def COLLAGE_INTERVAL_def)
qed

text \<open>
  C4 as stated fails: with a sleep of exactly the interval, after a turn of 5 seconds
  started at 60 the next turn starts at 125, not at 120; after a turn of 90 seconds
  started at 60 the next starts at 210, not at its end, 150.
\<close>

theorem turns_drift_by_duration:
  "cycle_starts 0 [(0, 5), (0, 5)] = [60, 125] \<and> (125 :: int) \<noteq> 60 + COLLAGE_INTERVAL \<and>
   cycle_starts 0 [(0, 90), (0, 5)] = [60, 210] \<and> (210 :: int) \<noteq> 60 + 90"
  by (simp add: Let_def COLLAGE_INTERVAL_def)

section \<open>The answer to a new subscriber\<close>

text \<open>
  C9 (as the code has it): the initial state sent on connect holds the names of all
  images of the store, the most recent collage file name (\<open>None\<close> before the first
  collage), and the whole seconds left: the integer part of
  \<open>max 0 (interval - (now - last_collage_time))\<close>.
\<close>

theorem initial_state_answer:
  "\<exists>r. handle_connect now st =
          Initial_state (map (\<lambda>img. basename (path img)) (uploaded_images st)) (recent_collage st) r \<and>
        of_int r \<le> max 0 (of_int COLLAGE_INTERVAL - total_seconds (now - last_collage_time st)) \<and>
        max 0 (of_int COLLAGE_INTERVAL - total_seconds (now - last_collage_time st)) < of_int r + 1"
proof -
  have "of_int (remaining_time now lt) \<le> max 0 (of_int COLLAGE_INTERVAL - total_seconds (now - lt))
   \<and> max 0 (of_int COLLAGE_INTERVAL - total_seconds (now - lt)) < of_int (remaining_time now lt) + 1"
    for lt
    unfolding remaining_time_def py_int_def by (simp add: max_def) linarith
  then show ?thesis by (simp add: handle_connect_def)
qed

text \<open>
  C9 as stated fails: half a second after the last collage the answer is 59, and
  \<open>max 0 (interval - (now - last_collage_time))\<close> is 59.5.
\<close>

theorem remaining_time_is_cut:
  "handle_connect 500000 fresh_state = Initial_state [] None 59 \<and>
   max 0 (of_int COLLAGE_INTERVAL - total_seconds (500000 - last_collage_time fresh_state)) = 119 / 2"
proof -
  have "remaining_time 500000 0 = 59"
    by (simp add: remaining_time_whole_seconds timedelta_seconds_def COLLAGE_INTERVAL_def)
  then show ?thesis
    by (simp add: handle_connect_def fresh_state_def total_seconds_def COLLAGE_INTERVAL_def)
qed

section \<open>Uploads with a file name that is not allowed\<close>

text \<open>
  C8: an upload whose file name has no part after a last dot that, in lower case, is one
  of png, jpg, jpeg, gif (so also a name without a dot) is answered with an error of
  status 400, and the state is exactly as before.
\<close>

theorem disallowed_upload_rejected:
  assumes "\<not> (\<exists>stem ext. file_name = stem @ CHR ''.'' # ext \<and> CHR ''.'' \<notin> set ext \<and>
                 lower ext \<in> ALLOWED_EXTENSIONS)"
  shows "\<exists>msg. upload_file e (Some file_name) st = (Json_error msg 400, st)"
proof -
  from assms have "\<not> allowed_file file_name" by (simp add: allowed_file_iff)
  then show ?thesis by (simp add: upload_file_def)
qed

theorem disallowed_upload_rejected_witness:
  "\<not> allowed_file ''notes.txt'' \<and>
   (\<exists>msg. upload_file some_upload (Some ''notes.txt'') five_state = (Json_error msg 400, five_state))"
proof -
  have h: "\<not> (\<exists>stem ext. ''notes.txt'' = stem @ CHR ''.'' # ext \<and> CHR ''.'' \<notin> set ext \<and>
                 lower ext \<in> ALLOWED_EXTENSIONS)"
    using not_allowed_txt unfolding allowed_file_iff .
  from disallowed_upload_rejected [OF h] not_allowed_txt show ?thesis by blast
qed

end
